theory Spec2Isabelle
  imports Complex_Main
begin

section \<open>Data model\<close>

text \<open>
  JavaScript numbers are modelled as mathematical reals (doubles without rounding,
  overflow or NaN). An asteroid tier is an integer, as the field annotation
  \<^verbatim>\<open>@type {1|2|3}\<close> of the class says. Objects and arrays live in a store and are
  named by references (indices into the store), so that object identity, which the
  \<^verbatim>\<open>Set\<close>s of the collision handler rely on, and mutation are explicit.
\<close>

text \<open>The shape contract of \<^verbatim>\<open>circlesOverlap\<close>: any object with \<^verbatim>\<open>x\<close>, \<^verbatim>\<open>y\<close>, \<^verbatim>\<open>radius\<close>.\<close>

record circle =
  x :: real
  y :: real
  radius :: real

text \<open>A \<^verbatim>\<open>Bullet\<close> has exactly the fields of a moving circle.\<close>

record body = circle +
  vx :: real
  vy :: real

record asteroid = body +
  tier :: int
  rotation :: real
  angularVelocity :: real
  shape :: "(real \<times> real) list"

text \<open>The destructured argument object of the \<^verbatim>\<open>Asteroid\<close> constructor; the last three
  properties may be absent.\<close>

record opts =
  opts_tier :: int
  opts_x :: real
  opts_y :: real
  opts_vx :: real
  opts_vy :: real
  opts_rotation :: "real option"
  opts_angularVelocity :: "real option"
  opts_shape :: "(real \<times> real) list option"

datatype error = RangeError int

text \<open>
  The store: \<open>asteroidObjs\<close> and \<open>bulletObjs\<close> hold the objects created by
  \<^verbatim>\<open>new Asteroid\<close> and \<^verbatim>\<open>new Bullet\<close>, \<open>arrays\<close> holds the arrays of object
  references; a reference is the index at which the object was allocated.
  \<open>randomCalls\<close> counts the calls of \<^verbatim>\<open>Math.random\<close> made so far.
\<close>

record store =
  asteroidObjs :: "asteroid list"
  bulletObjs :: "body list"
  arrays :: "nat list list"
  randomCalls :: nat

text \<open>\<^verbatim>\<open>Math.random()\<close>: the \<open>n\<close>-th call returns \<open>rnd n\<close>, where \<open>rnd\<close> is the
  sequence of values the ambient generator produces.\<close>

definition Math_random :: "(nat \<Rightarrow> real) \<Rightarrow> store \<Rightarrow> real \<times> store" where
  "Math_random rnd st = (rnd (randomCalls st), st\<lparr>randomCalls := Suc (randomCalls st)\<rparr>)"

text \<open>Array primitives: the literal \<^verbatim>\<open>[]\<close> and \<^verbatim>\<open>push\<close>.\<close>

definition newArray :: "store \<Rightarrow> nat \<times> store" where
  "newArray st = (length (arrays st), st\<lparr>arrays := arrays st @ [[]]\<rparr>)"

definition push :: "nat \<Rightarrow> nat \<Rightarrow> store \<Rightarrow> store" where
  "push arr v st = st\<lparr>arrays := (arrays st)[arr := arrays st ! arr @ [v]]\<rparr>"

section \<open>collision.js\<close>

definition circlesOverlap :: "'a circle_scheme \<Rightarrow> 'b circle_scheme \<Rightarrow> bool" where
  "circlesOverlap a b =
     (let dx = x a - x b;
          dy = y a - y b;
          distSq = dx * dx + dy * dy;
          radiiSum = radius a + radius b
      in distSq \<le> radiiSum * radiiSum)"

section \<open>bullet.js\<close>

definition BULLET_RADIUS :: real where
  "BULLET_RADIUS = 3"

definition Bullet_constructor :: "real \<Rightarrow> real \<Rightarrow> real \<Rightarrow> real \<Rightarrow> store \<Rightarrow> nat \<times> store" where
  "Bullet_constructor x' y' vx' vy' st =
     (length (bulletObjs st),
      st\<lparr>bulletObjs := bulletObjs st @
         [\<lparr>x = x', y = y', radius = BULLET_RADIUS, vx = vx', vy = vy'\<rparr>]\<rparr>)"

section \<open>asteroid.js\<close>

definition ASTEROID_SCORES :: "int \<rightharpoonup> int" where
  "ASTEROID_SCORES = [1 \<mapsto> 20, 2 \<mapsto> 50, 3 \<mapsto> 100]"

definition TIER_RADII :: "int \<rightharpoonup> real" where
  "TIER_RADII = [1 \<mapsto> 40, 2 \<mapsto> 20, 3 \<mapsto> 10]"

definition SHAPE_VERTEX_COUNT :: nat where
  "SHAPE_VERTEX_COUNT = 10"

definition SHAPE_JITTER :: real where
  "SHAPE_JITTER = 0.3"

definition MIN_ANGULAR_VELOCITY :: real where
  "MIN_ANGULAR_VELOCITY = - 2"

definition MAX_ANGULAR_VELOCITY :: real where
  "MAX_ANGULAR_VELOCITY = 2"

text \<open>The \<^verbatim>\<open>for\<close> loop of \<^verbatim>\<open>generateAsteroidShape\<close>, from index \<open>i\<close> on.\<close>

function generateAsteroidShape_loop ::
  "(nat \<Rightarrow> real) \<Rightarrow> real \<Rightarrow> real \<Rightarrow> nat \<Rightarrow> (real \<times> real) list \<Rightarrow> store
     \<Rightarrow> (real \<times> real) list \<times> store" where
  "generateAsteroidShape_loop rnd radius' angleStep i vertices st =
     (if i < SHAPE_VERTEX_COUNT then
        let angle = real i * angleStep;
            (u, st1) = Math_random rnd st;
            jitter = 1 - SHAPE_JITTER + u * (SHAPE_JITTER * 2);
            r = radius' * jitter
        in generateAsteroidShape_loop rnd radius' angleStep (i + 1)
             (vertices @ [(cos angle * r, sin angle * r)]) st1
      else (vertices, st))"
  by pat_completeness auto
termination
  by (relation "measure (\<lambda>(rnd, radius', angleStep, i, vertices, st). SHAPE_VERTEX_COUNT - i)")
    auto

declare generateAsteroidShape_loop.simps [simp del]

definition generateAsteroidShape ::
  "(nat \<Rightarrow> real) \<Rightarrow> real \<Rightarrow> store \<Rightarrow> (real \<times> real) list \<times> store" where
  "generateAsteroidShape rnd radius' st =
     (let angleStep = (pi * 2) / real SHAPE_VERTEX_COUNT
      in generateAsteroidShape_loop rnd radius' angleStep 0 [] st)"

definition randomAngularVelocity :: "(nat \<Rightarrow> real) \<Rightarrow> store \<Rightarrow> real \<times> store" where
  "randomAngularVelocity rnd st =
     (let (u, st1) = Math_random rnd st
      in (MIN_ANGULAR_VELOCITY + u * (MAX_ANGULAR_VELOCITY - MIN_ANGULAR_VELOCITY), st1))"

text \<open>
  \<^verbatim>\<open>new Asteroid(opts)\<close>: the error of the \<^verbatim>\<open>throw\<close>, or the reference of the new
  object and the store that holds it. \<^verbatim>\<open>a ?? b\<close> evaluates \<open>b\<close> only when \<open>a\<close> is
  absent. The table lookup \<^verbatim>\<open>TIER_RADII[tier]\<close> is read with \<open>the\<close>; the guard
  keeps an integer tier inside the table (lemma \<open>TIER_RADII_defined\<close>).
\<close>

definition Asteroid_constructor :: "(nat \<Rightarrow> real) \<Rightarrow> opts \<Rightarrow> store \<Rightarrow> error + nat \<times> store" where
  "Asteroid_constructor rnd opts st =
     (if opts_tier opts < 1 \<or> opts_tier opts > 3 then Inl (RangeError (opts_tier opts))
      else
        let this_radius = the (TIER_RADII (opts_tier opts));
            this_rotation = (case opts_rotation opts of Some r \<Rightarrow> r | None \<Rightarrow> 0);
            (this_angularVelocity, st1) =
               (case opts_angularVelocity opts of Some w \<Rightarrow> (w, st)
                | None \<Rightarrow> randomAngularVelocity rnd st);
            (this_shape, st2) =
               (case opts_shape opts of Some s \<Rightarrow> (s, st1)
                | None \<Rightarrow> generateAsteroidShape rnd this_radius st1);
            this = \<lparr>x = opts_x opts, y = opts_y opts, radius = this_radius,
                    vx = opts_vx opts, vy = opts_vy opts, tier = opts_tier opts,
                    rotation = this_rotation, angularVelocity = this_angularVelocity,
                    shape = this_shape\<rparr>
        in Inr (length (asteroidObjs st2), st2\<lparr>asteroidObjs := asteroidObjs st2 @ [this]\<rparr>))"

definition randomDeflectionAngle :: "(nat \<Rightarrow> real) \<Rightarrow> store \<Rightarrow> real \<times> store" where
  "randomDeflectionAngle rnd st =
     (let (u, st1) = Math_random rnd st;
          t = u * 30
      in if t < 15 then (- 30 + t, st1) else (15 + (t - 15), st1))"

text \<open>One pass through the body of the \<^verbatim>\<open>for\<close> loop of \<^verbatim>\<open>breakup\<close>: the reference of
  the child constructed. The fields of \<^verbatim>\<open>this\<close> are read from the store.\<close>

definition breakup_child :: "(nat \<Rightarrow> real) \<Rightarrow> nat \<Rightarrow> int \<Rightarrow> store \<Rightarrow> error + nat \<times> store" where
  "breakup_child rnd this childTier st =
     (let (u1, st1) = Math_random rnd st;
          offsetX = (u1 * 2 - 1) * radius (asteroidObjs st1 ! this) * 0.3;
          (u2, st2) = Math_random rnd st1;
          offsetY = (u2 * 2 - 1) * radius (asteroidObjs st2 ! this) * 0.3;
          (angleDeg, st3) = randomDeflectionAngle rnd st2;
          angleRad = (angleDeg * pi) / 180;
          (u3, st4) = Math_random rnd st3;
          speedScale = 1.2 + u3 * 0.3;
          cos' = cos angleRad;
          sin' = sin angleRad;
          childVx = (vx (asteroidObjs st4 ! this) * cos' - vy (asteroidObjs st4 ! this) * sin') *
                    speedScale;
          childVy = (vx (asteroidObjs st4 ! this) * sin' + vy (asteroidObjs st4 ! this) * cos') *
                    speedScale
      in Asteroid_constructor rnd
           \<lparr>opts_tier = childTier,
            opts_x = x (asteroidObjs st4 ! this) + offsetX,
            opts_y = y (asteroidObjs st4 ! this) + offsetY,
            opts_vx = childVx, opts_vy = childVy,
            opts_rotation = None, opts_angularVelocity = None, opts_shape = None\<rparr> st4)"

function breakup_loop ::
  "(nat \<Rightarrow> real) \<Rightarrow> nat \<Rightarrow> int \<Rightarrow> nat \<Rightarrow> nat list \<Rightarrow> store \<Rightarrow> error + nat list \<times> store" where
  "breakup_loop rnd this childTier i children st =
     (if i < 2 then
        (case breakup_child rnd this childTier st of
           Inl e \<Rightarrow> Inl e
         | Inr (child, st1) \<Rightarrow> breakup_loop rnd this childTier (i + 1) (children @ [child]) st1)
      else Inr (children, st))"
  by pat_completeness auto
termination
  by (relation "measure (\<lambda>(rnd, this, childTier, i, children, st). 2 - i)") auto

declare breakup_loop.simps [simp del]

text \<open>\<^verbatim>\<open>this.breakup()\<close>, with \<open>this\<close> a reference into the store. The result pairs the
  \<^verbatim>\<open>children\<close> array (a local array, returned by value) with the \<^verbatim>\<open>score\<close>.\<close>

definition breakup :: "(nat \<Rightarrow> real) \<Rightarrow> nat \<Rightarrow> store \<Rightarrow> error + (nat list \<times> int) \<times> store" where
  "breakup rnd this st =
     (let score = the (ASTEROID_SCORES (tier (asteroidObjs st ! this)))
      in if tier (asteroidObjs st ! this) = 3 then Inr (([], score), st)
         else
           let childTier = tier (asteroidObjs st ! this) + 1
           in (case breakup_loop rnd this childTier 0 [] st of
                 Inl e \<Rightarrow> Inl e
               | Inr (children, st1) \<Rightarrow> Inr ((children, score), st1)))"

section \<open>bullet-asteroid-collision.js\<close>

text \<open>The object returned by \<^verbatim>\<open>processBulletAsteroidCollisions\<close>. The two \<^verbatim>\<open>Set\<close>s hold
  object references; \<open>newAsteroids\<close> is the reference of an array in the store.\<close>

record collisionResult =
  bulletsToRemove :: "nat set"
  asteroidsToRemove :: "nat set"
  newAsteroids :: nat
  scoreDelta :: int

text \<open>The object returned by \<^verbatim>\<open>applyCollisionResults\<close>: two array references and the
  score.\<close>

record applied =
  applied_bullets :: nat
  applied_asteroids :: nat
  applied_scoreDelta :: int

text \<open>\<^verbatim>\<open>for (const child of children) arr.push(child)\<close>, over the elements \<open>children\<close> of
  the array iterated.\<close>

fun push_each :: "nat \<Rightarrow> nat list \<Rightarrow> store \<Rightarrow> store" where
  "push_each arr [] st = st"
| "push_each arr (child # children) st = push_each arr children (push arr child st)"

text \<open>\<^verbatim>\<open>arr.filter(p)\<close>: a new array with the elements of \<open>arr\<close> that satisfy \<open>p\<close>, in
  order.\<close>

definition array_filter :: "(nat \<Rightarrow> bool) \<Rightarrow> nat \<Rightarrow> store \<Rightarrow> nat \<times> store" where
  "array_filter p arr st =
     (length (arrays st), st\<lparr>arrays := arrays st @ [filter p (arrays st ! arr)]\<rparr>)"

text \<open>
  The inner loop \<^verbatim>\<open>for (let i = 0; i < asteroidCount; i++)\<close> for one bullet, from index
  \<open>i\<close> on. The local variables \<^verbatim>\<open>bulletsToRemove\<close>, \<^verbatim>\<open>asteroidsToRemove\<close>,
  \<^verbatim>\<open>newAsteroids\<close> and \<^verbatim>\<open>scoreDelta\<close> are the fields of \<open>res\<close>. \<^verbatim>\<open>continue\<close> is the
  recursive call, \<^verbatim>\<open>break\<close> returns. An error thrown by \<^verbatim>\<open>breakup\<close> propagates.
\<close>

function asteroids_loop ::
  "(nat \<Rightarrow> real) \<Rightarrow> nat \<Rightarrow> nat \<Rightarrow> nat \<Rightarrow> nat \<Rightarrow> collisionResult \<Rightarrow> store
     \<Rightarrow> error + collisionResult \<times> store" where
  "asteroids_loop rnd bullet asteroids asteroidCount i res st =
     (if i < asteroidCount then
        let asteroid = arrays st ! asteroids ! i
        in if asteroid \<in> asteroidsToRemove res then
             asteroids_loop rnd bullet asteroids asteroidCount (i + 1) res st
           else if circlesOverlap (bulletObjs st ! bullet) (asteroidObjs st ! asteroid) then
             (let res1 = res\<lparr>bulletsToRemove := insert bullet (bulletsToRemove res)\<rparr>;
                  res2 = res1\<lparr>asteroidsToRemove := insert asteroid (asteroidsToRemove res1)\<rparr>
              in case breakup rnd asteroid st of
                   Inl e \<Rightarrow> Inl e
                 | Inr ((children, score), st1) \<Rightarrow>
                     Inr (res2\<lparr>scoreDelta := scoreDelta res2 + score\<rparr>,
                          push_each (newAsteroids res2) children st1))
           else asteroids_loop rnd bullet asteroids asteroidCount (i + 1) res st
      else Inr (res, st))"
  by pat_completeness auto
termination
  by (relation "measure (\<lambda>(rnd, bullet, asteroids, asteroidCount, i, res, st). asteroidCount - i)")
    auto

declare asteroids_loop.simps [simp del]

text \<open>The outer loop \<^verbatim>\<open>for (const bullet of bullets)\<close>, over the elements of the array
  that remain to be visited. The body never writes to the array it iterates: the arrays
  that exist when the loop starts keep their contents (lemma \<open>resolver_inv_reads\<close>).\<close>

fun bullets_loop ::
  "(nat \<Rightarrow> real) \<Rightarrow> nat list \<Rightarrow> nat \<Rightarrow> nat \<Rightarrow> collisionResult \<Rightarrow> store
     \<Rightarrow> error + collisionResult \<times> store" where
  "bullets_loop rnd [] asteroids asteroidCount res st = Inr (res, st)"
| "bullets_loop rnd (bullet # rest) asteroids asteroidCount res st =
     (if bullet \<in> bulletsToRemove res then
        bullets_loop rnd rest asteroids asteroidCount res st
      else
        (case asteroids_loop rnd bullet asteroids asteroidCount 0 res st of
           Inl e \<Rightarrow> Inl e
         | Inr (res1, st1) \<Rightarrow> bullets_loop rnd rest asteroids asteroidCount res1 st1))"

definition processBulletAsteroidCollisions ::
  "(nat \<Rightarrow> real) \<Rightarrow> nat \<Rightarrow> nat \<Rightarrow> store \<Rightarrow> error + collisionResult \<times> store" where
  "processBulletAsteroidCollisions rnd bullets asteroids st =
     (let (newAsteroids', st1) = newArray st;
          res = \<lparr>bulletsToRemove = {}, asteroidsToRemove = {},
                 newAsteroids = newAsteroids', scoreDelta = 0\<rparr>;
          asteroidCount = length (arrays st1 ! asteroids)
      in bullets_loop rnd (arrays st1 ! bullets) asteroids asteroidCount res st1)"

definition applyCollisionResults ::
  "nat \<Rightarrow> nat \<Rightarrow> collisionResult \<Rightarrow> store \<Rightarrow> applied \<times> store" where
  "applyCollisionResults bullets asteroids result st =
     (let (survivingBullets, st1) =
            array_filter (\<lambda>b. b \<notin> bulletsToRemove result) bullets st;
          (survivingAsteroids, st2) =
            array_filter (\<lambda>a. a \<notin> asteroidsToRemove result) asteroids st1;
          st3 = push_each survivingAsteroids (arrays st2 ! newAsteroids result) st2
      in (\<lparr>applied_bullets = survivingBullets, applied_asteroids = survivingAsteroids,
           applied_scoreDelta = scoreDelta result\<rparr>, st3))"

section \<open>The collision rule in the words of its description\<close>

text \<open>
  The rule as the design describes it, over the two sequences and an overlap relation:
  projectiles are visited in order; a projectile that is not yet consumed is paired with
  the first entity, in order, that overlaps it and is not yet destroyed; both are then
  marked, and the scan for that projectile stops. The result lists the pairs made, in
  the order they are made. \<open>C\<close> is the consumed set and \<open>D\<close> the destroyed set so far.
\<close>

fun first_hits ::
  "(nat \<Rightarrow> nat \<Rightarrow> bool) \<Rightarrow> nat list \<Rightarrow> nat list \<Rightarrow> nat set \<Rightarrow> nat set \<Rightarrow> (nat \<times> nat) list" where
  "first_hits ov [] es C D = []"
| "first_hits ov (p # ps) es C D =
     (if p \<in> C then first_hits ov ps es C D
      else
        (case find (\<lambda>e. e \<notin> D \<and> ov p e) es of
           None \<Rightarrow> first_hits ov ps es C D
         | Some e \<Rightarrow> (p, e) # first_hits ov ps es (insert p C) (insert e D)))"

text \<open>The overlap relation between a bullet and an asteroid of a store.\<close>

definition overlaps_in :: "store \<Rightarrow> nat \<Rightarrow> nat \<Rightarrow> bool" where
  "overlaps_in st b a = circlesOverlap (bulletObjs st ! b) (asteroidObjs st ! a)"

text \<open>
  What the callers of the collision handler supply: the two arrays exist, and every
  element of \<^verbatim>\<open>asteroids\<close> is an asteroid of the store whose tier is 1, 2 or 3.
\<close>

definition valid_input :: "store \<Rightarrow> nat \<Rightarrow> nat \<Rightarrow> bool" where
  "valid_input st bullets asteroids \<longleftrightarrow>
     bullets < length (arrays st) \<and> asteroids < length (arrays st) \<and>
     list_all (\<lambda>a. a < length (asteroidObjs st) \<and> tier (asteroidObjs st ! a) \<in> {1, 2, 3})
       (arrays st ! asteroids)"

text \<open>
  The invariant of the outer and the inner loop of \<^verbatim>\<open>processBulletAsteroidCollisions\<close>,
  between the store \<open>st0\<close> in which \<^verbatim>\<open>newAsteroids\<close> is about to be created and the current store:
  the only array added is \<^verbatim>\<open>newAsteroids\<close>, the arrays and objects of \<open>st0\<close> are as
  they were, and \<^verbatim>\<open>newAsteroids\<close> holds only asteroids created since.
\<close>

definition resolver_inv :: "store \<Rightarrow> collisionResult \<Rightarrow> store \<Rightarrow> bool" where
  "resolver_inv st0 res st \<longleftrightarrow>
     newAsteroids res = length (arrays st0) \<and>
     bulletObjs st = bulletObjs st0 \<and>
     (\<exists>new. asteroidObjs st = asteroidObjs st0 @ new) \<and>
     (\<exists>kids. arrays st = arrays st0 @ [kids] \<and>
        list_all (\<lambda>c. length (asteroidObjs st0) \<le> c \<and> c < length (asteroidObjs st)) kids)"

section \<open>Scenarios of the test suite\<close>

text \<open>
  A store with a large, a medium and a small asteroid, the first two stacked at
  \<open>(100, 100)\<close>, and two bullets at that same spot; array \<open>0\<close> lists both bullets,
  array \<open>1\<close> the three asteroids, array \<open>2\<close> the first object alone and array \<open>3\<close>
  the small asteroid alone.
\<close>

definition stacked_store :: store where
  "stacked_store =
     \<lparr>asteroidObjs =
        [\<lparr>x = 100, y = 100, radius = 40, vx = 10, vy = 5, tier = 1, rotation = 0,
          angularVelocity = 0, shape = []\<rparr>,
         \<lparr>x = 100, y = 100, radius = 20, vx = - 15, vy = 20, tier = 2, rotation = 0,
          angularVelocity = 0, shape = []\<rparr>,
         \<lparr>x = 500, y = 500, radius = 10, vx = 5, vy = - 10, tier = 3, rotation = 0,
          angularVelocity = 0, shape = []\<rparr>],
      bulletObjs =
        [\<lparr>x = 100, y = 100, radius = 3, vx = 0, vy = - 300\<rparr>,
         \<lparr>x = 100, y = 100, radius = 3, vx = 0, vy = - 300\<rparr>],
      arrays = [[0, 1], [0, 1, 2], [0], [2]],
      randomCalls = 0\<rparr>"

section \<open>Properties of the asteroid and of the overlap test\<close>

lemma Math_random_frame:
  "asteroidObjs (snd (Math_random rnd st)) = asteroidObjs st"
  "bulletObjs (snd (Math_random rnd st)) = bulletObjs st"
  "arrays (snd (Math_random rnd st)) = arrays st"
  "randomCalls (snd (Math_random rnd st)) = Suc (randomCalls st)"
  "fst (Math_random rnd st) = rnd (randomCalls st)"
  by (simp_all add: Math_random_def)

lemma generateAsteroidShape_loop_frame:
  "asteroidObjs (snd (generateAsteroidShape_loop rnd rad angleStep i vertices st)) = asteroidObjs st \<and>
   bulletObjs (snd (generateAsteroidShape_loop rnd rad angleStep i vertices st)) = bulletObjs st \<and>
   arrays (snd (generateAsteroidShape_loop rnd rad angleStep i vertices st)) = arrays st"
proof (induction "SHAPE_VERTEX_COUNT - i" arbitrary: i vertices st)
  case 0
  then show ?case
    by (subst (1 2 3) generateAsteroidShape_loop.simps) simp
next
  case (Suc n)
  then have lt: "i < SHAPE_VERTEX_COUNT" and n: "n = SHAPE_VERTEX_COUNT - Suc i"
    by simp_all
  show ?case
    by (subst (1 2 3) generateAsteroidShape_loop.simps)
       (simp add: lt Let_def case_prod_beta Suc.hyps(1)[OF n] Math_random_frame)
qed

lemma generateAsteroidShape_frame:
  "asteroidObjs (snd (generateAsteroidShape rnd rad st)) = asteroidObjs st"
  "bulletObjs (snd (generateAsteroidShape rnd rad st)) = bulletObjs st"
  "arrays (snd (generateAsteroidShape rnd rad st)) = arrays st"
  by (simp_all add: generateAsteroidShape_def generateAsteroidShape_loop_frame)

lemma randomAngularVelocity_frame:
  "asteroidObjs (snd (randomAngularVelocity rnd st)) = asteroidObjs st"
  "bulletObjs (snd (randomAngularVelocity rnd st)) = bulletObjs st"
  "arrays (snd (randomAngularVelocity rnd st)) = arrays st"
  by (simp_all add: randomAngularVelocity_def Math_random_def)

lemma randomDeflectionAngle_frame:
  "asteroidObjs (snd (randomDeflectionAngle rnd st)) = asteroidObjs st"
  "bulletObjs (snd (randomDeflectionAngle rnd st)) = bulletObjs st"
  "arrays (snd (randomDeflectionAngle rnd st)) = arrays st"
  by (simp_all add: randomDeflectionAngle_def Math_random_def Let_def)


lemma ASTEROID_SCORES_defined:
  "1 \<le> t \<Longrightarrow> t \<le> 3 \<Longrightarrow> ASTEROID_SCORES t = Some (if t = 1 then 20 else if t = 2 then 50 else 100)"
  by (auto simp: ASTEROID_SCORES_def)


lemma Asteroid_constructor_Inr:
  assumes "Asteroid_constructor rnd opts st = Inr (r, st')"
  shows "r = length (asteroidObjs st) \<and> bulletObjs st' = bulletObjs st \<and> arrays st' = arrays st \<and>
         (\<exists>a. asteroidObjs st' = asteroidObjs st @ [a] \<and> tier a = opts_tier opts \<and>
              radius a = the (TIER_RADII (opts_tier opts)) \<and>
              x a = opts_x opts \<and> y a = opts_y opts \<and> vx a = opts_vx opts \<and> vy a = opts_vy opts)"
  using assms
  by (auto simp: Asteroid_constructor_def Let_def case_prod_beta generateAsteroidShape_frame
      randomAngularVelocity_frame split: if_splits option.splits)


lemma randomDeflectionAngle_calls:
  "randomCalls (snd (randomDeflectionAngle rnd st)) = Suc (randomCalls st)"
  by (simp add: randomDeflectionAngle_def Math_random_def Let_def)

lemma Asteroid_constructor_ok:
  assumes "1 \<le> opts_tier opts" "opts_tier opts \<le> 3"
  shows "\<exists>a st'. Asteroid_constructor rnd opts st = Inr (length (asteroidObjs st), st') \<and>
           asteroidObjs st' = asteroidObjs st @ [a] \<and> bulletObjs st' = bulletObjs st \<and>
           arrays st' = arrays st \<and> tier a = opts_tier opts \<and>
           radius a = the (TIER_RADII (opts_tier opts)) \<and>
           x a = opts_x opts \<and> y a = opts_y opts \<and> vx a = opts_vx opts \<and> vy a = opts_vy opts"
  using assms
  by (auto simp: Asteroid_constructor_def Let_def case_prod_beta generateAsteroidShape_frame
      randomAngularVelocity_frame split: option.splits)

lemma breakup_child_Inr:
  assumes "breakup_child rnd this ct st = Inr (c, st')"
  shows "c = length (asteroidObjs st) \<and> bulletObjs st' = bulletObjs st \<and> arrays st' = arrays st \<and>
         (\<exists>a. asteroidObjs st' = asteroidObjs st @ [a] \<and> tier a = ct)"
proof -
  from assms obtain o4 st4 where
    c: "Asteroid_constructor rnd o4 st4 = Inr (c, st')" and t: "opts_tier o4 = ct" and
    f: "asteroidObjs st4 = asteroidObjs st" "bulletObjs st4 = bulletObjs st" "arrays st4 = arrays st"
    by (auto simp: breakup_child_def Let_def case_prod_beta Math_random_frame
        randomDeflectionAngle_frame)
  from Asteroid_constructor_Inr[OF c] t f show ?thesis
    by auto
qed

lemma breakup_child_ok:
  assumes "1 \<le> ct" "ct \<le> 3"
  shows "\<exists>a st' \<theta>. breakup_child rnd this ct st = Inr (length (asteroidObjs st), st') \<and>
           asteroidObjs st' = asteroidObjs st @ [a] \<and> bulletObjs st' = bulletObjs st \<and>
           arrays st' = arrays st \<and> tier a = ct \<and>
           vx a = (vx (asteroidObjs st ! this) * cos \<theta> - vy (asteroidObjs st ! this) * sin \<theta>) *
                  (1.2 + rnd (randomCalls st + 3) * 0.3) \<and>
           vy a = (vx (asteroidObjs st ! this) * sin \<theta> + vy (asteroidObjs st ! this) * cos \<theta>) *
                  (1.2 + rnd (randomCalls st + 3) * 0.3)"
proof -
  define st1 where "st1 = snd (Math_random rnd st)"
  define st2 where "st2 = snd (Math_random rnd st1)"
  define st3 where "st3 = snd (randomDeflectionAngle rnd st2)"
  define st4 where "st4 = snd (Math_random rnd st3)"
  define \<theta> where "\<theta> = (fst (randomDeflectionAngle rnd st2) * pi) / 180"
  define sc where "sc = 1.2 + fst (Math_random rnd st3) * 0.3"
  define o4 where "o4 =
     \<lparr>opts_tier = ct,
      opts_x = x (asteroidObjs st4 ! this) +
               (fst (Math_random rnd st) * 2 - 1) * radius (asteroidObjs st1 ! this) * 0.3,
      opts_y = y (asteroidObjs st4 ! this) +
               (fst (Math_random rnd st1) * 2 - 1) * radius (asteroidObjs st2 ! this) * 0.3,
      opts_vx = (vx (asteroidObjs st4 ! this) * cos \<theta> - vy (asteroidObjs st4 ! this) * sin \<theta>) * sc,
      opts_vy = (vx (asteroidObjs st4 ! this) * sin \<theta> + vy (asteroidObjs st4 ! this) * cos \<theta>) * sc,
      opts_rotation = None, opts_angularVelocity = None, opts_shape = None\<rparr>"
  have eq: "breakup_child rnd this ct st = Asteroid_constructor rnd o4 st4"
    by (simp add: breakup_child_def Let_def case_prod_beta o4_def sc_def \<theta>_def st4_def st3_def
        st2_def st1_def)
  have f: "asteroidObjs st4 = asteroidObjs st" "bulletObjs st4 = bulletObjs st"
    "arrays st4 = arrays st"
    by (simp_all add: st4_def st3_def st2_def st1_def Math_random_frame randomDeflectionAngle_frame)
  have calls: "randomCalls st3 = randomCalls st + 3"
    by (simp add: st3_def st2_def st1_def Math_random_frame randomDeflectionAngle_calls)
  have sc: "sc = 1.2 + rnd (randomCalls st + 3) * 0.3"
    by (simp add: sc_def Math_random_frame calls)
  have t: "1 \<le> opts_tier o4" "opts_tier o4 \<le> 3"
    using assms by (simp_all add: o4_def)
  from Asteroid_constructor_ok[OF t, of rnd st4] obtain a st' where
    r: "Asteroid_constructor rnd o4 st4 = Inr (length (asteroidObjs st4), st')"
      "asteroidObjs st' = asteroidObjs st4 @ [a]" "bulletObjs st' = bulletObjs st4"
      "arrays st' = arrays st4" "tier a = opts_tier o4" "vx a = opts_vx o4" "vy a = opts_vy o4"
    by blast
  have "vx a = (vx (asteroidObjs st ! this) * cos \<theta> - vy (asteroidObjs st ! this) * sin \<theta>) *
                  (1.2 + rnd (randomCalls st + 3) * 0.3)"
    "vy a = (vx (asteroidObjs st ! this) * sin \<theta> + vy (asteroidObjs st ! this) * cos \<theta>) *
                  (1.2 + rnd (randomCalls st + 3) * 0.3)"
    using r(6,7) by (simp_all add: o4_def f sc)
  moreover have "tier a = ct"
    using r(5) by (simp add: o4_def)
  ultimately show ?thesis
    using eq r(1-4) f by auto
qed

lemma breakup_loop_done: "breakup_loop rnd this ct (Suc (Suc 0)) cs st = Inr (cs, st)"
  by (subst breakup_loop.simps) simp

lemma breakup_loop_unroll:
  "breakup_loop rnd this ct 0 [] st =
     (case breakup_child rnd this ct st of
        Inl e \<Rightarrow> Inl e
      | Inr (c1, st1) \<Rightarrow>
          (case breakup_child rnd this ct st1 of
             Inl e \<Rightarrow> Inl e
           | Inr (c2, st2) \<Rightarrow> Inr ([c1, c2], st2)))"
proof -
  have one: "breakup_loop rnd this ct (Suc 0) cs s =
     (case breakup_child rnd this ct s of
        Inl e \<Rightarrow> Inl e | Inr (c2, st2) \<Rightarrow> Inr (cs @ [c2], st2))" for cs s
    by (subst breakup_loop.simps) (simp add: breakup_loop_done split: sum.splits)
  show ?thesis
    by (subst breakup_loop.simps) (simp add: one split: sum.splits)
qed


lemma breakup_smallest:
  assumes "tier (asteroidObjs st ! this) = 3"
  shows "breakup rnd this st = Inr (([], 100), st)"
  using assms by (simp add: breakup_def ASTEROID_SCORES_def)

lemma breakup_Inr:
  assumes "breakup rnd this st = Inr ((cs, sc), st')"
  shows "\<exists>new. asteroidObjs st' = asteroidObjs st @ new \<and>
           cs = [length (asteroidObjs st)..<length (asteroidObjs st) + length new] \<and>
           bulletObjs st' = bulletObjs st \<and> arrays st' = arrays st \<and>
           sc = the (ASTEROID_SCORES (tier (asteroidObjs st ! this)))"
proof (cases "tier (asteroidObjs st ! this) = 3")
  case True
  with assms show ?thesis
    by (simp add: breakup_def)
next
  case False
  with assms obtain c1 st1 c2 where
    b1: "breakup_child rnd this (tier (asteroidObjs st ! this) + 1) st = Inr (c1, st1)" and
    b2: "breakup_child rnd this (tier (asteroidObjs st ! this) + 1) st1 = Inr (c2, st')" and
    cs: "cs = [c1, c2]" and sc: "sc = the (ASTEROID_SCORES (tier (asteroidObjs st ! this)))"
    by (auto simp: breakup_def Let_def breakup_loop_unroll split: sum.splits)
  from breakup_child_Inr[OF b1] breakup_child_Inr[OF b2] obtain a1 a2 where
    "asteroidObjs st' = asteroidObjs st @ [a1, a2]" "c1 = length (asteroidObjs st)"
    "c2 = Suc (length (asteroidObjs st))" "bulletObjs st' = bulletObjs st"
    "arrays st' = arrays st"
    by auto
  with cs sc show ?thesis
    by (auto simp: upt_rec)
qed

lemma breakup_split:
  assumes lt: "this < length (asteroidObjs st)"
    and t: "tier (asteroidObjs st ! this) = 1 \<or> tier (asteroidObjs st ! this) = 2"
  shows "\<exists>a1 a2 st' \<theta>1 \<theta>2 k1 k2.
           breakup rnd this st =
             Inr (([length (asteroidObjs st), Suc (length (asteroidObjs st))],
                   the (ASTEROID_SCORES (tier (asteroidObjs st ! this)))), st') \<and>
           asteroidObjs st' = asteroidObjs st @ [a1, a2] \<and>
           bulletObjs st' = bulletObjs st \<and> arrays st' = arrays st \<and>
           tier a1 = tier (asteroidObjs st ! this) + 1 \<and>
           tier a2 = tier (asteroidObjs st ! this) + 1 \<and>
           vx a1 = (vx (asteroidObjs st ! this) * cos \<theta>1 - vy (asteroidObjs st ! this) * sin \<theta>1) *
                   (1.2 + rnd k1 * 0.3) \<and>
           vy a1 = (vx (asteroidObjs st ! this) * sin \<theta>1 + vy (asteroidObjs st ! this) * cos \<theta>1) *
                   (1.2 + rnd k1 * 0.3) \<and>
           vx a2 = (vx (asteroidObjs st ! this) * cos \<theta>2 - vy (asteroidObjs st ! this) * sin \<theta>2) *
                   (1.2 + rnd k2 * 0.3) \<and>
           vy a2 = (vx (asteroidObjs st ! this) * sin \<theta>2 + vy (asteroidObjs st ! this) * cos \<theta>2) *
                   (1.2 + rnd k2 * 0.3)"
proof -
  let ?p = "asteroidObjs st ! this"
  let ?ct = "tier ?p + 1"
  have ct: "1 \<le> ?ct" "?ct \<le> 3"
    using t by auto
  from breakup_child_ok[OF ct, of rnd this st] obtain a1 st1 \<theta>1 where
    1: "breakup_child rnd this ?ct st = Inr (length (asteroidObjs st), st1)"
       "asteroidObjs st1 = asteroidObjs st @ [a1]" "bulletObjs st1 = bulletObjs st"
       "arrays st1 = arrays st" "tier a1 = ?ct"
       "vx a1 = (vx ?p * cos \<theta>1 - vy ?p * sin \<theta>1) * (1.2 + rnd (randomCalls st + 3) * 0.3)"
       "vy a1 = (vx ?p * sin \<theta>1 + vy ?p * cos \<theta>1) * (1.2 + rnd (randomCalls st + 3) * 0.3)"
    by blast
  have same: "asteroidObjs st1 ! this = ?p"
    using lt by (simp add: 1(2) nth_append)
  from breakup_child_ok[OF ct, of rnd this st1] obtain a2 st2 \<theta>2 where
    2: "breakup_child rnd this ?ct st1 = Inr (length (asteroidObjs st1), st2)"
       "asteroidObjs st2 = asteroidObjs st1 @ [a2]" "bulletObjs st2 = bulletObjs st1"
       "arrays st2 = arrays st1" "tier a2 = ?ct"
       "vx a2 = (vx ?p * cos \<theta>2 - vy ?p * sin \<theta>2) * (1.2 + rnd (randomCalls st1 + 3) * 0.3)"
       "vy a2 = (vx ?p * sin \<theta>2 + vy ?p * cos \<theta>2) * (1.2 + rnd (randomCalls st1 + 3) * 0.3)"
    unfolding same by blast
  have r: "breakup rnd this st =
          Inr (([length (asteroidObjs st), Suc (length (asteroidObjs st))],
                the (ASTEROID_SCORES (tier ?p))), st2)"
    using t 1(1) 2(1) by (auto simp: breakup_def Let_def breakup_loop_unroll 1(2))
  have objs: "asteroidObjs st2 = asteroidObjs st @ [a1, a2]"
    by (simp add: 1(2) 2(2))
  have rest: "bulletObjs st2 = bulletObjs st" "arrays st2 = arrays st"
    by (simp_all add: 1(3,4) 2(3,4))
  show ?thesis
    apply (rule exI[of _ a1], rule exI[of _ a2], rule exI[of _ st2])
    apply (rule exI[of _ \<theta>1], rule exI[of _ \<theta>2])
    apply (rule exI[of _ "randomCalls st + 3"], rule exI[of _ "randomCalls st1 + 3"])
    apply (intro conjI)
    apply (fact r objs rest 1(5-7) 2(5-7))+
    done
qed








text \<open>
  C5. \<^verbatim>\<open>breakup\<close> on a tier 3 asteroid returns no children and score 100; on tier 2,
  exactly two children of tier 3 and score 50; on tier 1, exactly two children of
  tier 2 and score 20.
\<close>

theorem breakup_children_and_score:
  assumes "this < length (asteroidObjs st)"
  shows "(tier (asteroidObjs st ! this) = 3 \<longrightarrow> breakup rnd this st = Inr (([], 100), st)) \<and>
         (tier (asteroidObjs st ! this) = 2 \<longrightarrow>
            (\<exists>c1 c2 st'. breakup rnd this st = Inr (([c1, c2], 50), st') \<and> c1 \<noteq> c2 \<and>
               tier (asteroidObjs st' ! c1) = 3 \<and> tier (asteroidObjs st' ! c2) = 3)) \<and>
         (tier (asteroidObjs st ! this) = 1 \<longrightarrow>
            (\<exists>c1 c2 st'. breakup rnd this st = Inr (([c1, c2], 20), st') \<and> c1 \<noteq> c2 \<and>
               tier (asteroidObjs st' ! c1) = 2 \<and> tier (asteroidObjs st' ! c2) = 2))"
proof (intro conjI impI)
  assume "tier (asteroidObjs st ! this) = 3"
  then show "breakup rnd this st = Inr (([], 100), st)"
    by (rule breakup_smallest)
next
  assume t: "tier (asteroidObjs st ! this) = 2"
  then have "tier (asteroidObjs st ! this) = 1 \<or> tier (asteroidObjs st ! this) = 2"
    by simp
  from breakup_split[OF assms this, of rnd] obtain a1 a2 st' where
    "breakup rnd this st =
       Inr (([length (asteroidObjs st), Suc (length (asteroidObjs st))],
             the (ASTEROID_SCORES (tier (asteroidObjs st ! this)))), st')"
    "asteroidObjs st' = asteroidObjs st @ [a1, a2]"
    "tier a1 = tier (asteroidObjs st ! this) + 1" "tier a2 = tier (asteroidObjs st ! this) + 1"
    by blast
  then show "\<exists>c1 c2 st'. breakup rnd this st = Inr (([c1, c2], 50), st') \<and> c1 \<noteq> c2 \<and>
               tier (asteroidObjs st' ! c1) = 3 \<and> tier (asteroidObjs st' ! c2) = 3"
    by (simp add: t ASTEROID_SCORES_def nth_append)
next
  assume t: "tier (asteroidObjs st ! this) = 1"
  then have "tier (asteroidObjs st ! this) = 1 \<or> tier (asteroidObjs st ! this) = 2"
    by simp
  from breakup_split[OF assms this, of rnd] obtain a1 a2 st' where
    "breakup rnd this st =
       Inr (([length (asteroidObjs st), Suc (length (asteroidObjs st))],
             the (ASTEROID_SCORES (tier (asteroidObjs st ! this)))), st')"
    "asteroidObjs st' = asteroidObjs st @ [a1, a2]"
    "tier a1 = tier (asteroidObjs st ! this) + 1" "tier a2 = tier (asteroidObjs st ! this) + 1"
    by blast
  then show "\<exists>c1 c2 st'. breakup rnd this st = Inr (([c1, c2], 20), st') \<and> c1 \<noteq> c2 \<and>
               tier (asteroidObjs st' ! c1) = 2 \<and> tier (asteroidObjs st' ! c2) = 2"
    by (simp add: t ASTEROID_SCORES_def nth_append)
qed

theorem breakup_children_and_score_witness:
  "breakup (\<lambda>n. 1 / 2) 2 stacked_store = Inr (([], 100), stacked_store) \<and>
   (\<exists>c1 c2 st'. breakup (\<lambda>n. 1 / 2) 1 stacked_store = Inr (([c1, c2], 50), st') \<and>
      c1 \<noteq> c2 \<and> tier (asteroidObjs st' ! c1) = 3 \<and> tier (asteroidObjs st' ! c2) = 3) \<and>
   (\<exists>c1 c2 st'. breakup (\<lambda>n. 1 / 2) 0 stacked_store = Inr (([c1, c2], 20), st') \<and>
      c1 \<noteq> c2 \<and> tier (asteroidObjs st' ! c1) = 2 \<and> tier (asteroidObjs st' ! c2) = 2)"
  using breakup_children_and_score [of 2 stacked_store "\<lambda>n. 1 / 2"]
    breakup_children_and_score [of 1 stacked_store "\<lambda>n. 1 / 2"]
    breakup_children_and_score [of 0 stacked_store "\<lambda>n. 1 / 2"]
  by (simp add: stacked_store_def)



text \<open>
  C8. \<^verbatim>\<open>breakup\<close> leaves every field of the asteroid it is called on unchanged, and
  every other object and array that existed before the call as well; the children it
  returns are objects created by the call.
\<close>

theorem breakup_leaves_parent_unchanged:
  assumes lt: "this < length (asteroidObjs st)"
  shows "(tier (asteroidObjs st ! this) \<in> {1, 2, 3} \<longrightarrow>
            (\<exists>cs sc st'. breakup rnd this st = Inr ((cs, sc), st'))) \<and>
         (\<forall>cs sc st'. breakup rnd this st = Inr ((cs, sc), st') \<longrightarrow>
            asteroidObjs st' ! this = asteroidObjs st ! this \<and>
            take (length (asteroidObjs st)) (asteroidObjs st') = asteroidObjs st \<and>
            bulletObjs st' = bulletObjs st \<and> arrays st' = arrays st \<and>
            (\<forall>c \<in> set cs. length (asteroidObjs st) \<le> c \<and> c < length (asteroidObjs st')))"
proof (intro conjI impI allI)
  assume "tier (asteroidObjs st ! this) \<in> {1, 2, 3}"
  then consider "tier (asteroidObjs st ! this) = 3"
    | "tier (asteroidObjs st ! this) = 1 \<or> tier (asteroidObjs st ! this) = 2"
    by auto
  then show "\<exists>cs sc st'. breakup rnd this st = Inr ((cs, sc), st')"
  proof cases
    case 1
    then show ?thesis
      by (simp add: breakup_smallest)
  next
    case 2
    from breakup_split[OF lt 2, of rnd] show ?thesis
      by blast
  qed
next
  fix cs sc st'
  assume "breakup rnd this st = Inr ((cs, sc), st')"
  from breakup_Inr[OF this] obtain new where
    n: "asteroidObjs st' = asteroidObjs st @ new"
       "cs = [length (asteroidObjs st)..<length (asteroidObjs st) + length new]"
       "bulletObjs st' = bulletObjs st" "arrays st' = arrays st"
    by blast
  show "asteroidObjs st' ! this = asteroidObjs st ! this"
    using lt by (simp add: n(1) nth_append)
  show "take (length (asteroidObjs st)) (asteroidObjs st') = asteroidObjs st"
    by (simp add: n(1))
  show "bulletObjs st' = bulletObjs st" "arrays st' = arrays st"
    by (fact n(3,4))+
  show "\<forall>c \<in> set cs. length (asteroidObjs st) \<le> c \<and> c < length (asteroidObjs st')"
    by (simp add: n(1,2))
qed

theorem breakup_leaves_parent_unchanged_witness:
  "\<exists>cs sc st'. breakup (\<lambda>n. 1 / 2) 0 stacked_store = Inr ((cs, sc), st') \<and>
     asteroidObjs st' ! 0 =
       \<lparr>x = 100, y = 100, radius = 40, vx = 10, vy = 5, tier = 1, rotation = 0,
        angularVelocity = 0, shape = []\<rparr> \<and>
     bulletObjs st' = bulletObjs stacked_store \<and>
     arrays st' = arrays stacked_store \<and>
     (\<forall>c \<in> set cs. 3 \<le> c \<and> c < length (asteroidObjs st'))"
proof -
  have lt: "0 < length (asteroidObjs stacked_store)"
    and t: "tier (asteroidObjs stacked_store ! 0) \<in> {1, 2, 3}"
    and p: "asteroidObjs stacked_store ! 0 =
       \<lparr>x = 100, y = 100, radius = 40, vx = 10, vy = 5, tier = 1, rotation = 0,
        angularVelocity = 0, shape = []\<rparr>"
    and n: "length (asteroidObjs stacked_store) = 3"
    by (simp_all add: stacked_store_def)
  show ?thesis
    using breakup_leaves_parent_unchanged [OF lt, of "\<lambda>n. 1 / 2"] t
    unfolding p n by blast
qed

text \<open>
  C10. On an asteroid whose tier is 1, 2 or 3, \<^verbatim>\<open>breakup\<close> never throws: the tier of
  each child constructed is the tier of the parent plus one, which is 2 or 3, so the
  constructor's check never fails.
\<close>

theorem breakup_never_raises:
  assumes lt: "this < length (asteroidObjs st)"
    and t: "tier (asteroidObjs st ! this) \<in> {1, 2, 3}"
  shows "(\<forall>e. breakup rnd this st \<noteq> Inl e) \<and>
         (\<exists>cs sc st'. breakup rnd this st = Inr ((cs, sc), st') \<and>
            (\<forall>c \<in> set cs. tier (asteroidObjs st' ! c) = tier (asteroidObjs st ! this) + 1 \<and>
                           tier (asteroidObjs st' ! c) \<in> {2, 3}))"
proof -
  from t consider "tier (asteroidObjs st ! this) = 3"
    | "tier (asteroidObjs st ! this) = 1 \<or> tier (asteroidObjs st ! this) = 2"
    by auto
  then have "\<exists>cs sc st'. breakup rnd this st = Inr ((cs, sc), st') \<and>
            (\<forall>c \<in> set cs. tier (asteroidObjs st' ! c) = tier (asteroidObjs st ! this) + 1 \<and>
                           tier (asteroidObjs st' ! c) \<in> {2, 3})"
  proof cases
    case 1
    then show ?thesis
      by (simp add: breakup_smallest)
  next
    case 2
    from breakup_split[OF lt 2, of rnd] obtain a1 a2 st' where
      "breakup rnd this st =
         Inr (([length (asteroidObjs st), Suc (length (asteroidObjs st))],
               the (ASTEROID_SCORES (tier (asteroidObjs st ! this)))), st')"
      "asteroidObjs st' = asteroidObjs st @ [a1, a2]"
      "tier a1 = tier (asteroidObjs st ! this) + 1" "tier a2 = tier (asteroidObjs st ! this) + 1"
      by blast
    with 2 show ?thesis
      by (auto simp: nth_append)
  qed
  then show ?thesis
    by auto
qed

theorem breakup_never_raises_witness:
  "(\<forall>e. breakup (\<lambda>n. 0) 1 stacked_store \<noteq> Inl e) \<and>
   (\<exists>cs sc st'. breakup (\<lambda>n. 0) 1 stacked_store = Inr ((cs, sc), st') \<and>
      (\<forall>c \<in> set cs. tier (asteroidObjs st' ! c) = 3 \<and> tier (asteroidObjs st' ! c) \<in> {2, 3}))"
  using breakup_never_raises [of 1 stacked_store "\<lambda>n. 0"]
  by (simp add: stacked_store_def)

section \<open>Properties of the collision handler\<close>

lemma push_each_arrays:
  assumes "arr < length (arrays st)"
  shows "push_each arr cs st = st\<lparr>arrays := (arrays st)[arr := arrays st ! arr @ cs]\<rparr>"
  using assms
proof (induction cs arbitrary: st)
  case Nil
  then show ?case by simp
next
  case (Cons c cs)
  then show ?case
    by (simp add: push_def)
qed

lemma first_hits_pairs:
  "(p, e) \<in> set (first_hits ov ps es C D) \<Longrightarrow>
     p \<in> set ps \<and> p \<notin> C \<and> e \<in> set es \<and> e \<notin> D \<and> ov p e"
proof (induction ps arbitrary: C D)
  case Nil
  then show ?case by simp
next
  case (Cons q ps)
  show ?case
  proof (cases "q \<in> C")
    case True
    with Cons show ?thesis by auto
  next
    case False
    show ?thesis
    proof (cases "find (\<lambda>e. e \<notin> D \<and> ov q e) es")
      case None
      with False Cons show ?thesis by auto
    next
      case (Some f)
      then have f: "f \<in> set es" "f \<notin> D" "ov q f"
        by (auto simp: find_Some_iff)
      from Cons.prems False Some
      consider "(p, e) = (q, f)" | "(p, e) \<in> set (first_hits ov ps es (insert q C) (insert f D))"
        by auto
      then show ?thesis
      proof cases
        case 1
        with f False show ?thesis by simp
      next
        case 2
        from Cons.IH[OF 2] show ?thesis by simp
      qed
    qed
  qed
qed

lemma first_hits_distinct:
  "distinct (map fst (first_hits ov ps es C D)) \<and> distinct (map snd (first_hits ov ps es C D))"
proof (induction ps arbitrary: C D)
  case Nil
  then show ?case by simp
next
  case (Cons q ps)
  show ?case
  proof (cases "find (\<lambda>e. e \<notin> D \<and> ov q e) es")
    case None
    with Cons show ?thesis by simp
  next
    case (Some f)
    have "q \<notin> fst ` set (first_hits ov ps es (insert q C) (insert f D))"
      "f \<notin> snd ` set (first_hits ov ps es (insert q C) (insert f D))"
      using first_hits_pairs[of _ _ ov ps es "insert q C" "insert f D"] by force+
    with Some Cons show ?thesis by simp
  qed
qed

lemma first_hits_length: "length (first_hits ov ps es C D) \<le> length ps"
proof (induction ps arbitrary: C D)
  case Nil
  then show ?case by simp
next
  case (Cons q ps)
  from Cons[of C D] Cons[of "insert q C"] show ?case
    by (auto split: option.splits intro: le_SucI)
qed

lemma breakup_total:
  assumes "this < length (asteroidObjs st)" "tier (asteroidObjs st ! this) \<in> {1, 2, 3}"
  shows "\<exists>cs sc st' new. breakup rnd this st = Inr ((cs, sc), st') \<and>
           asteroidObjs st' = asteroidObjs st @ new \<and>
           cs = [length (asteroidObjs st)..<length (asteroidObjs st) + length new] \<and>
           bulletObjs st' = bulletObjs st \<and> arrays st' = arrays st"
proof -
  from assms(2) consider "tier (asteroidObjs st ! this) = 3"
    | "tier (asteroidObjs st ! this) = 1 \<or> tier (asteroidObjs st ! this) = 2"
    by auto
  then obtain cs sc st' where r: "breakup rnd this st = Inr ((cs, sc), st')"
  proof cases
    case 1
    with that show ?thesis
      by (simp add: breakup_smallest)
  next
    case 2
    from breakup_split[OF assms(1) 2, of rnd] that show ?thesis
      by blast
  qed
  from breakup_Inr[OF r] r show ?thesis
    by blast
qed


lemma resolver_inv_reads:
  assumes V: "valid_input st0 bullets asteroids" and I: "resolver_inv st0 res st"
  shows "arrays st ! asteroids = arrays st0 ! asteroids"
    and "arrays st ! bullets = arrays st0 ! bullets"
    and "e \<in> set (arrays st0 ! asteroids) \<Longrightarrow>
           e < length (asteroidObjs st) \<and> asteroidObjs st ! e = asteroidObjs st0 ! e \<and>
           tier (asteroidObjs st ! e) \<in> {1, 2, 3}"
    and "overlaps_in st b e = circlesOverlap (bulletObjs st0 ! b) (asteroidObjs st ! e)"
proof -
  from I obtain new kids where
    n: "asteroidObjs st = asteroidObjs st0 @ new" "arrays st = arrays st0 @ [kids]"
       "bulletObjs st = bulletObjs st0"
    by (auto simp: resolver_inv_def)
  from V have lt: "bullets < length (arrays st0)" "asteroids < length (arrays st0)"
    by (simp_all add: valid_input_def)
  show "arrays st ! asteroids = arrays st0 ! asteroids" "arrays st ! bullets = arrays st0 ! bullets"
    using lt by (simp_all add: n(2) nth_append)
  show "overlaps_in st b e = circlesOverlap (bulletObjs st0 ! b) (asteroidObjs st ! e)"
    by (simp add: overlaps_in_def n(3))
  assume "e \<in> set (arrays st0 ! asteroids)"
  with V have "e < length (asteroidObjs st0)" "tier (asteroidObjs st0 ! e) \<in> {1, 2, 3}"
    by (auto simp: valid_input_def list_all_iff)
  then show "e < length (asteroidObjs st) \<and> asteroidObjs st ! e = asteroidObjs st0 ! e \<and>
           tier (asteroidObjs st ! e) \<in> {1, 2, 3}"
    by (simp add: n(1) nth_append)
qed

lemma hit_step:
  assumes V: "valid_input st0 bullets asteroids" and I: "resolver_inv st0 res st"
    and e: "e \<in> set (arrays st0 ! asteroids)"
  shows "\<exists>cs sc st1. breakup rnd e st = Inr ((cs, sc), st1) \<and>
           (\<forall>res'. newAsteroids res' = newAsteroids res \<longrightarrow>
              resolver_inv st0 res' (push_each (newAsteroids res) cs st1))"
proof -
  from I obtain new kids where
    n: "asteroidObjs st = asteroidObjs st0 @ new" "arrays st = arrays st0 @ [kids]"
       "bulletObjs st = bulletObjs st0" "newAsteroids res = length (arrays st0)"
       "list_all (\<lambda>c. length (asteroidObjs st0) \<le> c \<and> c < length (asteroidObjs st)) kids"
    by (auto simp: resolver_inv_def)
  from resolver_inv_reads(3)[OF V I e] have
    "e < length (asteroidObjs st)" "tier (asteroidObjs st ! e) \<in> {1, 2, 3}"
    by blast+
  from breakup_total[OF this, of rnd] obtain cs sc st1 new1 where
    b: "breakup rnd e st = Inr ((cs, sc), st1)" "asteroidObjs st1 = asteroidObjs st @ new1"
       "cs = [length (asteroidObjs st)..<length (asteroidObjs st) + length new1]"
       "bulletObjs st1 = bulletObjs st" "arrays st1 = arrays st"
    by blast
  have lt: "newAsteroids res < length (arrays st1)"
    by (simp add: b(5) n(2,4))
  have p: "push_each (newAsteroids res) cs st1 =
             st1\<lparr>arrays := arrays st0 @ [kids @ cs]\<rparr>"
    unfolding push_each_arrays[OF lt] by (simp add: b(5) n(2,4))
  have "list_all (\<lambda>c. length (asteroidObjs st0) \<le> c \<and> c < length (asteroidObjs st1)) (kids @ cs)"
    using n(5) by (auto simp: list_all_iff b(2,3) n(1))
  then have "\<forall>res'. newAsteroids res' = newAsteroids res \<longrightarrow>
      resolver_inv st0 res' (push_each (newAsteroids res) cs st1)"
    unfolding p by (simp add: resolver_inv_def n(4) b(4) n(3) b(2) n(1))
  with b(1) show ?thesis
    by blast
qed

lemma asteroids_loop_find:
  assumes V: "valid_input st0 bullets asteroids" and I: "resolver_inv st0 res st"
    and es: "es = arrays st0 ! asteroids"
  shows "case find (\<lambda>e. e \<notin> asteroidsToRemove res \<and> overlaps_in st0 b e) (drop i es) of
           None \<Rightarrow> asteroids_loop rnd b asteroids (length es) i res st = Inr (res, st)
         | Some e \<Rightarrow>
             (\<exists>res' st'. asteroids_loop rnd b asteroids (length es) i res st = Inr (res', st') \<and>
                resolver_inv st0 res' st' \<and>
                bulletsToRemove res' = insert b (bulletsToRemove res) \<and>
                asteroidsToRemove res' = insert e (asteroidsToRemove res))"
proof (induction "length es - i" arbitrary: i)
  case 0
  then show ?case
    by (subst asteroids_loop.simps) simp
next
  case (Suc n)
  then have lt: "i < length es" and n: "n = length es - Suc i"
    by simp_all
  let ?e = "es ! i"
  have d: "drop i es = ?e # drop (Suc i) es"
    using lt by (simp add: Cons_nth_drop_Suc)
  have mem: "?e \<in> set (arrays st0 ! asteroids)"
    using lt es by simp
  have rd: "arrays st ! asteroids ! i = ?e"
    by (simp add: resolver_inv_reads(1)[OF V I] es)
  have ov: "circlesOverlap (bulletObjs st ! b) (asteroidObjs st ! ?e) = overlaps_in st0 b ?e"
    using resolver_inv_reads(3)[OF V I mem] I
    by (simp add: overlaps_in_def resolver_inv_def)
  show ?case
  proof (cases "?e \<notin> asteroidsToRemove res \<and> overlaps_in st0 b ?e")
    case True
    from hit_step[OF V I mem, of rnd]
    obtain cs sc st1 where
      h: "breakup rnd ?e st = Inr ((cs, sc), st1)"
         "resolver_inv st0
            (res\<lparr>bulletsToRemove := insert b (bulletsToRemove res),
                 asteroidsToRemove := insert ?e (asteroidsToRemove res),
                 scoreDelta := scoreDelta res + sc\<rparr>)
            (push_each (newAsteroids res) cs st1)"
      by force
    have "asteroids_loop rnd b asteroids (length es) i res st =
            Inr (res\<lparr>bulletsToRemove := insert b (bulletsToRemove res),
                      asteroidsToRemove := insert ?e (asteroidsToRemove res),
                      scoreDelta := scoreDelta res + sc\<rparr>,
                 push_each (newAsteroids res) cs st1)"
      using True h(1) by (subst asteroids_loop.simps) (simp add: lt rd ov Let_def)
    with True h(2) show ?thesis
      by (simp add: d)
  next
    case False
    then have eq: "asteroids_loop rnd b asteroids (length es) i res st =
                 asteroids_loop rnd b asteroids (length es) (Suc i) res st"
      by (subst asteroids_loop.simps) (auto simp add: lt rd ov Let_def)
    from False have "find (\<lambda>e. e \<notin> asteroidsToRemove res \<and> overlaps_in st0 b e) (drop i es) =
        find (\<lambda>e. e \<notin> asteroidsToRemove res \<and> overlaps_in st0 b e) (drop (Suc i) es)"
      unfolding d by auto
    with Suc.hyps(1)[OF n] show ?thesis
      unfolding eq by simp
  qed
qed


lemma bullets_loop_refines:
  assumes V: "valid_input st0 bullets asteroids" and I: "resolver_inv st0 res st"
    and es: "es = arrays st0 ! asteroids"
  shows "\<exists>res' st'. bullets_loop rnd ps asteroids (length es) res st = Inr (res', st') \<and>
           resolver_inv st0 res' st' \<and>
           bulletsToRemove res' = bulletsToRemove res \<union>
             fst ` set (first_hits (overlaps_in st0) ps es (bulletsToRemove res) (asteroidsToRemove res)) \<and>
           asteroidsToRemove res' = asteroidsToRemove res \<union>
             snd ` set (first_hits (overlaps_in st0) ps es (bulletsToRemove res) (asteroidsToRemove res))"
  using I
proof (induction ps arbitrary: res st)
  case Nil
  then show ?case by simp
next
  case (Cons p ps)
  show ?case
  proof (cases "p \<in> bulletsToRemove res")
    case True
    with Cons.IH[OF Cons.prems] show ?thesis
      by simp
  next
    case False
    show ?thesis
    proof (cases "find (\<lambda>e. e \<notin> asteroidsToRemove res \<and> overlaps_in st0 p e) es")
      case None
      with asteroids_loop_find[OF V Cons.prems es, where b = p and i = 0 and rnd = rnd]
      have "asteroids_loop rnd p asteroids (length es) 0 res st = Inr (res, st)"
        by simp
      with Cons.IH[OF Cons.prems] False None show ?thesis
        by simp
    next
      case (Some e)
      with asteroids_loop_find[OF V Cons.prems es, where b = p and i = 0 and rnd = rnd]
      obtain res1 st1 where
        a: "asteroids_loop rnd p asteroids (length es) 0 res st = Inr (res1, st1)"
           "resolver_inv st0 res1 st1"
           "bulletsToRemove res1 = insert p (bulletsToRemove res)"
           "asteroidsToRemove res1 = insert e (asteroidsToRemove res)"
        by auto
      from Cons.IH[OF a(2)] obtain res' st' where
        b: "bullets_loop rnd ps asteroids (length es) res1 st1 = Inr (res', st')"
           "resolver_inv st0 res' st'"
           "bulletsToRemove res' = bulletsToRemove res1 \<union>
              fst ` set (first_hits (overlaps_in st0) ps es (bulletsToRemove res1)
                          (asteroidsToRemove res1))"
           "asteroidsToRemove res' = asteroidsToRemove res1 \<union>
              snd ` set (first_hits (overlaps_in st0) ps es (bulletsToRemove res1)
                          (asteroidsToRemove res1))"
        by blast
      have "bullets_loop rnd (p # ps) asteroids (length es) res st = Inr (res', st')"
        using False a(1) b(1) by simp
      moreover have "bulletsToRemove res' = bulletsToRemove res \<union>
             fst ` set (first_hits (overlaps_in st0) (p # ps) es (bulletsToRemove res)
                         (asteroidsToRemove res))"
        using False Some by (simp add: b(3) a(3,4))
      moreover have "asteroidsToRemove res' = asteroidsToRemove res \<union>
             snd ` set (first_hits (overlaps_in st0) (p # ps) es (bulletsToRemove res)
                         (asteroidsToRemove res))"
        using False Some by (simp add: b(4) a(3,4))
      ultimately show ?thesis
        using b(2) by blast
    qed
  qed
qed

lemma process_refines:
  assumes V: "valid_input st bullets asteroids"
  shows "\<exists>res st'. processBulletAsteroidCollisions rnd bullets asteroids st = Inr (res, st') \<and>
           resolver_inv st res st' \<and>
           bulletsToRemove res =
             fst ` set (first_hits (overlaps_in st) (arrays st ! bullets) (arrays st ! asteroids) {} {}) \<and>
           asteroidsToRemove res =
             snd ` set (first_hits (overlaps_in st) (arrays st ! bullets) (arrays st ! asteroids) {} {})"
proof -
  let ?st1 = "st\<lparr>arrays := arrays st @ [[]]\<rparr>"
  let ?res = "\<lparr>bulletsToRemove = {}, asteroidsToRemove = {},
               newAsteroids = length (arrays st), scoreDelta = 0\<rparr>"
  have I: "resolver_inv st ?res ?st1"
    by (simp add: resolver_inv_def)
  from V have lt: "bullets < length (arrays st)" "asteroids < length (arrays st)"
    by (simp_all add: valid_input_def)
  have p: "processBulletAsteroidCollisions rnd bullets asteroids st =
             bullets_loop rnd (arrays st ! bullets) asteroids (length (arrays st ! asteroids)) ?res ?st1"
    using lt by (simp add: processBulletAsteroidCollisions_def newArray_def Let_def nth_append)
  from bullets_loop_refines[OF V I refl, where rnd = rnd and ps = "arrays st ! bullets"] show ?thesis
    unfolding p by simp
qed

text \<open>
  C1. The collision handler visits the bullets in input order; a bullet not yet consumed
  is paired with the first asteroid, in input order, that overlaps it and is not yet
  marked destroyed; both are then marked and no further asteroid is tested for that
  bullet. So the two sets returned are those of the pairing \<open>first_hits\<close>, in which no
  bullet occurs twice: a bullet destroys at most one asteroid per call.
\<close>

theorem processBulletAsteroidCollisions_first_hit_wins:
  assumes "valid_input st bullets asteroids"
  shows "\<exists>res st'. processBulletAsteroidCollisions rnd bullets asteroids st = Inr (res, st') \<and>
           bulletsToRemove res =
             fst ` set (first_hits (overlaps_in st) (arrays st ! bullets) (arrays st ! asteroids) {} {}) \<and>
           asteroidsToRemove res =
             snd ` set (first_hits (overlaps_in st) (arrays st ! bullets) (arrays st ! asteroids) {} {}) \<and>
           distinct (map fst
             (first_hits (overlaps_in st) (arrays st ! bullets) (arrays st ! asteroids) {} {}))"
proof -
  from process_refines[OF assms, of rnd] obtain res st' where
    "processBulletAsteroidCollisions rnd bullets asteroids st = Inr (res, st')"
    "bulletsToRemove res =
       fst ` set (first_hits (overlaps_in st) (arrays st ! bullets) (arrays st ! asteroids) {} {})"
    "asteroidsToRemove res =
       snd ` set (first_hits (overlaps_in st) (arrays st ! bullets) (arrays st ! asteroids) {} {})"
    by blast
  moreover have "distinct (map fst
      (first_hits (overlaps_in st) (arrays st ! bullets) (arrays st ! asteroids) {} {}))"
    by (simp add: first_hits_distinct)
  ultimately show ?thesis
    by blast
qed

theorem processBulletAsteroidCollisions_first_hit_wins_witness:
  "\<exists>res st'. processBulletAsteroidCollisions (\<lambda>n. 1 / 2) 2 1 stacked_store = Inr (res, st') \<and>
     bulletsToRemove res = {0} \<and> asteroidsToRemove res = {0}"
proof -
  have v: "valid_input stacked_store 2 1"
    by (simp add: valid_input_def stacked_store_def)
  have h: "first_hits (overlaps_in stacked_store) (arrays stacked_store ! 2)
             (arrays stacked_store ! 1) {} {} = [(0, 0)]"
    by (simp add: stacked_store_def overlaps_in_def circlesOverlap_def)
  show ?thesis
    using processBulletAsteroidCollisions_first_hit_wins [OF v, of "\<lambda>n. 1 / 2"]
    unfolding h by simp
qed

text \<open>
  C2. An asteroid made by a breakup inside a call of the collision handler is never
  tested against a bullet of that call: the children are new objects that occur only in
  \<^verbatim>\<open>newAsteroids\<close>, not in the asteroid list and not in \<^verbatim>\<open>asteroidsToRemove\<close>, and every
  bullet consumed overlaps a destroyed asteroid of the list given to the call, so a child
  never causes a bullet to be consumed. Wherever the random draws place the children,
  the same bullets are consumed and the same asteroids destroyed.
\<close>

theorem processBulletAsteroidCollisions_children_immune:
  assumes "valid_input st bullets asteroids"
  shows "\<exists>res st'. processBulletAsteroidCollisions rnd bullets asteroids st = Inr (res, st') \<and>
           arrays st' ! asteroids = arrays st ! asteroids \<and>
           (\<forall>c \<in> set (arrays st' ! newAsteroids res).
              length (asteroidObjs st) \<le> c \<and> c < length (asteroidObjs st') \<and>
              c \<notin> set (arrays st ! asteroids) \<and> c \<notin> asteroidsToRemove res) \<and>
           asteroidsToRemove res \<subseteq> set (arrays st ! asteroids) \<and>
           (\<forall>b \<in> bulletsToRemove res. \<exists>a \<in> asteroidsToRemove res.
              a \<in> set (arrays st ! asteroids) \<and> overlaps_in st b a) \<and>
           (\<forall>rnd'. \<exists>res2 st2.
              processBulletAsteroidCollisions rnd' bullets asteroids st = Inr (res2, st2) \<and>
              bulletsToRemove res2 = bulletsToRemove res \<and>
              asteroidsToRemove res2 = asteroidsToRemove res)"
proof -
  let ?hits = "first_hits (overlaps_in st) (arrays st ! bullets) (arrays st ! asteroids) {} {}"
  from process_refines[OF assms, of rnd] obtain res st' where
    r: "processBulletAsteroidCollisions rnd bullets asteroids st = Inr (res, st')"
       "resolver_inv st res st'" "bulletsToRemove res = fst ` set ?hits"
       "asteroidsToRemove res = snd ` set ?hits"
    by blast
  from r(2) obtain kids where
    k: "arrays st' = arrays st @ [kids]" "newAsteroids res = length (arrays st)"
       "list_all (\<lambda>c. length (asteroidObjs st) \<le> c \<and> c < length (asteroidObjs st')) kids"
    by (auto simp: resolver_inv_def)
  have old: "a < length (asteroidObjs st)" if "a \<in> set (arrays st ! asteroids)" for a
    using assms that by (auto simp: valid_input_def list_all_iff)
  have sub: "asteroidsToRemove res \<subseteq> set (arrays st ! asteroids)"
  proof
    fix a
    assume "a \<in> asteroidsToRemove res"
    then obtain p where "(p, a) \<in> set ?hits"
      unfolding r(4) by auto
    from first_hits_pairs[OF this] show "a \<in> set (arrays st ! asteroids)"
      by simp
  qed
  have same: "arrays st' ! asteroids = arrays st ! asteroids"
    by (rule resolver_inv_reads(1)[OF assms r(2)])
  have kids: "\<forall>c \<in> set (arrays st' ! newAsteroids res).
              length (asteroidObjs st) \<le> c \<and> c < length (asteroidObjs st') \<and>
              c \<notin> set (arrays st ! asteroids) \<and> c \<notin> asteroidsToRemove res"
  proof
    fix c
    assume "c \<in> set (arrays st' ! newAsteroids res)"
    then have c: "length (asteroidObjs st) \<le> c" "c < length (asteroidObjs st')"
      using k(3) by (auto simp: k(1,2) list_all_iff)
    from c(1) old[of c] have "c \<notin> set (arrays st ! asteroids)"
      by auto
    with sub c show "length (asteroidObjs st) \<le> c \<and> c < length (asteroidObjs st') \<and>
              c \<notin> set (arrays st ! asteroids) \<and> c \<notin> asteroidsToRemove res"
      by auto
  qed
  have hit: "\<forall>b \<in> bulletsToRemove res. \<exists>a \<in> asteroidsToRemove res.
              a \<in> set (arrays st ! asteroids) \<and> overlaps_in st b a"
  proof
    fix b
    assume "b \<in> bulletsToRemove res"
    then obtain e where e: "(b, e) \<in> set ?hits"
      unfolding r(3) by auto
    then have "e \<in> asteroidsToRemove res"
      unfolding r(4) by force
    with first_hits_pairs[OF e]
    show "\<exists>a \<in> asteroidsToRemove res. a \<in> set (arrays st ! asteroids) \<and> overlaps_in st b a"
      by blast
  qed
  have indep: "\<forall>rnd'. \<exists>res2 st2.
              processBulletAsteroidCollisions rnd' bullets asteroids st = Inr (res2, st2) \<and>
              bulletsToRemove res2 = bulletsToRemove res \<and>
              asteroidsToRemove res2 = asteroidsToRemove res"
  proof
    fix rnd'
    from process_refines[OF assms, of rnd'] show "\<exists>res2 st2.
              processBulletAsteroidCollisions rnd' bullets asteroids st = Inr (res2, st2) \<and>
              bulletsToRemove res2 = bulletsToRemove res \<and>
              asteroidsToRemove res2 = asteroidsToRemove res"
      unfolding r(3,4) by blast
  qed
  from r(1) same kids sub hit indep show ?thesis
    by blast
qed

theorem processBulletAsteroidCollisions_children_immune_witness:
  "\<exists>res st'. processBulletAsteroidCollisions (\<lambda>n. 1 / 2) 0 2 stacked_store = Inr (res, st') \<and>
     arrays st' ! 2 = [0] \<and>
     (\<forall>c \<in> set (arrays st' ! newAsteroids res).
        3 \<le> c \<and> c < length (asteroidObjs st') \<and> c \<noteq> 0 \<and> c \<notin> asteroidsToRemove res) \<and>
     asteroidsToRemove res \<subseteq> {0} \<and>
     (\<forall>b \<in> bulletsToRemove res. \<exists>a \<in> asteroidsToRemove res.
        a = 0 \<and> overlaps_in stacked_store b a) \<and>
     (\<forall>rnd'. \<exists>res2 st2.
        processBulletAsteroidCollisions rnd' 0 2 stacked_store = Inr (res2, st2) \<and>
        bulletsToRemove res2 = bulletsToRemove res \<and>
        asteroidsToRemove res2 = asteroidsToRemove res)"
proof -
  have v: "valid_input stacked_store 0 2"
    by (simp add: valid_input_def stacked_store_def)
  have e: "arrays stacked_store ! 2 = [0]" "length (asteroidObjs stacked_store) = 3"
    by (simp_all add: stacked_store_def)
  show ?thesis
    using processBulletAsteroidCollisions_children_immune [OF v, of "\<lambda>n. 1 / 2"]
    unfolding e by simp
qed

text \<open>
  C6. In the result of the collision handler the number of consumed bullets is at most
  the number of bullets given, and consumed bullets correspond one-to-one with
  destroyed asteroids: the two sets have the same number of elements, and a bijection
  maps each consumed bullet to a destroyed asteroid that it overlaps.
\<close>

theorem processBulletAsteroidCollisions_one_to_one:
  assumes "valid_input st bullets asteroids"
  shows "\<exists>res st'. processBulletAsteroidCollisions rnd bullets asteroids st = Inr (res, st') \<and>
           finite (bulletsToRemove res) \<and> finite (asteroidsToRemove res) \<and>
           card (bulletsToRemove res) \<le> length (arrays st ! bullets) \<and>
           card (bulletsToRemove res) = card (asteroidsToRemove res) \<and>
           (\<exists>f. bij_betw f (bulletsToRemove res) (asteroidsToRemove res) \<and>
                (\<forall>b \<in> bulletsToRemove res. overlaps_in st b (f b)))"
proof -
  let ?hits = "first_hits (overlaps_in st) (arrays st ! bullets) (arrays st ! asteroids) {} {}"
  from process_refines[OF assms, of rnd] obtain res st' where
    r: "processBulletAsteroidCollisions rnd bullets asteroids st = Inr (res, st')"
       "bulletsToRemove res = fst ` set ?hits" "asteroidsToRemove res = snd ` set ?hits"
    by blast
  have d: "distinct (map fst ?hits)" "distinct (map snd ?hits)"
    using first_hits_distinct by blast+
  have cb: "card (bulletsToRemove res) = length ?hits"
    using distinct_card[OF d(1)] by (simp add: r(2))
  have ca: "card (asteroidsToRemove res) = length ?hits"
    using distinct_card[OF d(2)] by (simp add: r(3))
  have le: "card (bulletsToRemove res) \<le> length (arrays st ! bullets)"
    unfolding cb by (rule first_hits_length)
  define f where "f b = the (map_of ?hits b)" for b
  have f: "f p = e" if "(p, e) \<in> set ?hits" for p e
    using that d(1) by (simp add: f_def)
  have inj: "inj_on snd (set ?hits)"
    using d(2) by (simp add: distinct_map)
  have "bij_betw f (bulletsToRemove res) (asteroidsToRemove res)"
    unfolding bij_betw_def r(2,3)
  proof
    show "inj_on f (fst ` set ?hits)"
    proof (rule inj_onI)
      fix p q
      assume "p \<in> fst ` set ?hits" "q \<in> fst ` set ?hits" "f p = f q"
      then obtain e e' where pq: "(p, e) \<in> set ?hits" "(q, e') \<in> set ?hits"
        by auto
      with \<open>f p = f q\<close> have "e = e'"
        by (simp add: f)
      with pq inj_onD[OF inj, of "(p, e)" "(q, e')"] show "p = q"
        by simp
    qed
    show "f ` fst ` set ?hits = snd ` set ?hits"
    proof (intro set_eqI iffI)
      fix e
      assume "e \<in> f ` fst ` set ?hits"
      then obtain p e' where pe: "(p, e') \<in> set ?hits" "e = f p"
        by auto
      with f[OF pe(1)] show "e \<in> snd ` set ?hits"
        by force
    next
      fix e
      assume "e \<in> snd ` set ?hits"
      then obtain p where pe: "(p, e) \<in> set ?hits"
        by auto
      from f[OF pe] pe show "e \<in> f ` fst ` set ?hits"
        by force
    qed
  qed
  moreover have "\<forall>b \<in> bulletsToRemove res. overlaps_in st b (f b)"
  proof
    fix b
    assume "b \<in> bulletsToRemove res"
    then obtain e where e: "(b, e) \<in> set ?hits"
      unfolding r(2) by auto
    from first_hits_pairs[OF e] f[OF e] show "overlaps_in st b (f b)"
      by simp
  qed
  moreover have "finite (bulletsToRemove res)" "finite (asteroidsToRemove res)"
    by (simp_all add: r(2,3))
  ultimately show ?thesis
    using r(1) cb ca le by auto
qed
theorem processBulletAsteroidCollisions_one_to_one_witness:
  "\<exists>res st'. processBulletAsteroidCollisions (\<lambda>n. 1 / 2) 0 1 stacked_store = Inr (res, st') \<and>
     finite (bulletsToRemove res) \<and> finite (asteroidsToRemove res) \<and>
     card (bulletsToRemove res) \<le> 2 \<and>
     card (bulletsToRemove res) = card (asteroidsToRemove res) \<and>
     (\<exists>f. bij_betw f (bulletsToRemove res) (asteroidsToRemove res) \<and>
          (\<forall>b \<in> bulletsToRemove res. overlaps_in stacked_store b (f b)))"
proof -
  have v: "valid_input stacked_store 0 1"
    by (simp add: valid_input_def stacked_store_def)
  have e: "length (arrays stacked_store ! 0) = 2"
    by (simp add: stacked_store_def)
  show ?thesis
    using processBulletAsteroidCollisions_one_to_one [OF v, of "\<lambda>n. 1 / 2"]
    unfolding e by simp
qed

text \<open>
  C3. \<^verbatim>\<open>applyCollisionResults\<close> returns the bullets without exactly those of
  \<^verbatim>\<open>bulletsToRemove\<close>, in order; the asteroids without exactly those of
  \<^verbatim>\<open>asteroidsToRemove\<close>, in order, followed by the elements of \<^verbatim>\<open>newAsteroids\<close> in their
  order; and the \<^verbatim>\<open>scoreDelta\<close> of the result. The two arrays returned are new and
  distinct, and every array and object that existed before the call is unchanged.
\<close>

theorem applyCollisionResults_filters_and_appends:
  assumes "bullets < length (arrays st)" and "asteroids < length (arrays st)"
    and "newAsteroids result < length (arrays st)"
  shows "\<exists>out st'. applyCollisionResults bullets asteroids result st = (out, st') \<and>
           arrays st' ! applied_bullets out =
             filter (\<lambda>b. b \<notin> bulletsToRemove result) (arrays st ! bullets) \<and>
           arrays st' ! applied_asteroids out =
             filter (\<lambda>a. a \<notin> asteroidsToRemove result) (arrays st ! asteroids) @
             arrays st ! newAsteroids result \<and>
           applied_scoreDelta out = scoreDelta result \<and>
           length (arrays st) \<le> applied_bullets out \<and> applied_bullets out < length (arrays st') \<and>
           length (arrays st) \<le> applied_asteroids out \<and> applied_asteroids out < length (arrays st') \<and>
           applied_bullets out \<noteq> applied_asteroids out \<and>
           take (length (arrays st)) (arrays st') = arrays st \<and>
           asteroidObjs st' = asteroidObjs st \<and> bulletObjs st' = bulletObjs st"
proof -
  let ?n = "length (arrays st)"
  let ?bs = "filter (\<lambda>b. b \<notin> bulletsToRemove result) (arrays st ! bullets)"
  let ?as = "filter (\<lambda>a. a \<notin> asteroidsToRemove result) (arrays st ! asteroids)"
  let ?st2 = "st\<lparr>arrays := arrays st @ [?bs, ?as]\<rparr>"
  have f: "array_filter (\<lambda>a. a \<notin> asteroidsToRemove result) asteroids
             (snd (array_filter (\<lambda>b. b \<notin> bulletsToRemove result) bullets st)) = (Suc ?n, ?st2)"
    using assms(2) by (simp add: array_filter_def nth_append)
  have lt: "Suc ?n < length (arrays ?st2)"
    by simp
  have kids: "arrays ?st2 ! newAsteroids result = arrays st ! newAsteroids result"
    using assms(3) by (simp add: nth_append)
  have p: "push_each (Suc ?n) (arrays st ! newAsteroids result) ?st2 =
             st\<lparr>arrays := arrays st @ [?bs, ?as @ arrays st ! newAsteroids result]\<rparr>"
    unfolding push_each_arrays[OF lt] by (simp add: nth_append list_update_append)
  have step: "applyCollisionResults bullets asteroids result st =
          (\<lparr>applied_bullets = ?n, applied_asteroids = Suc ?n,
            applied_scoreDelta = scoreDelta result\<rparr>,
           push_each (Suc ?n) (arrays ?st2 ! newAsteroids result) ?st2)"
    unfolding applyCollisionResults_def Let_def case_prod_beta f
    by (simp add: array_filter_def)
  have "applyCollisionResults bullets asteroids result st =
          (\<lparr>applied_bullets = ?n, applied_asteroids = Suc ?n,
            applied_scoreDelta = scoreDelta result\<rparr>,
           st\<lparr>arrays := arrays st @ [?bs, ?as @ arrays st ! newAsteroids result]\<rparr>)"
    by (simp only: step kids p)
  then show ?thesis
    by (simp add: nth_append)
qed

theorem applyCollisionResults_filters_and_appends_witness:
  "\<exists>out st'. applyCollisionResults 0 1
       \<lparr>bulletsToRemove = {0}, asteroidsToRemove = {0, 2}, newAsteroids = 3, scoreDelta = 120\<rparr>
       stacked_store = (out, st') \<and>
     arrays st' ! applied_bullets out = [1] \<and>
     arrays st' ! applied_asteroids out = [1, 2] \<and>
     applied_scoreDelta out = 120 \<and>
     4 \<le> applied_bullets out \<and> applied_bullets out < length (arrays st') \<and>
     4 \<le> applied_asteroids out \<and> applied_asteroids out < length (arrays st') \<and>
     applied_bullets out \<noteq> applied_asteroids out \<and>
     take 4 (arrays st') = arrays stacked_store \<and>
     asteroidObjs st' = asteroidObjs stacked_store \<and> bulletObjs st' = bulletObjs stacked_store"
proof -
  let ?r = "\<lparr>bulletsToRemove = {0}, asteroidsToRemove = {0, 2}, newAsteroids = 3,
             scoreDelta = 120\<rparr>"
  have a: "0 < length (arrays stacked_store)" "1 < length (arrays stacked_store)"
    "newAsteroids ?r < length (arrays stacked_store)"
    by (simp_all add: stacked_store_def)
  have e: "length (arrays stacked_store) = 4"
    "filter (\<lambda>b. b \<notin> bulletsToRemove ?r) (arrays stacked_store ! 0) = [1]"
    "filter (\<lambda>a. a \<notin> asteroidsToRemove ?r) (arrays stacked_store ! 1) @
       arrays stacked_store ! newAsteroids ?r = [1, 2]"
    "scoreDelta ?r = 120"
    by (simp_all add: stacked_store_def)
  show ?thesis
    using applyCollisionResults_filters_and_appends [OF a]
    unfolding e .
qed

end
